theory Spec2Isabelle
  imports Complex_Main "HOL-Library.Sublist"
begin

section \<open>Data model (types/SiteRule.ts)\<close>

text \<open>
  A JavaScript \<open>number\<close> is read as an exact rational. Timestamps (\<open>Date.now()\<close>) and the
  minute settings are integers far below \<open>2^53\<close>, where double arithmetic is exact; for the
  quotient \<open>(now - lastUsedAt) / 60000\<close> and the running sum \<open>usedMinutes\<close> the rounding of
  IEEE doubles is not part of this model. \<open>NaN\<close> and the infinities are not values of it.
\<close>

type_synonym number = rat

datatype SiteRuleMatchType =
    EqualTo | StartsWith | EndsWith | Contains | Regex
  | NotEqualTo | NotStartsWith | NotEndsWith | NotContains | NotRegex

text \<open>The fields of an action object whose \<open>type\<close> is \<open>SiteRuleActionType.Limit\<close>.\<close>

record LimitState =
  allowedMinutes :: number
  resetAfterMinutes :: number
  delayMinutes :: number
  usedMinutes :: number
  lastResetAt :: number
  lastUsedAt :: number

text \<open>The tagged union \<open>SiteRuleAction\<close>; the tag \<open>type\<close> is the constructor.\<close>

datatype SiteRuleAction = Allow | Block | Limit LimitState

text \<open>\<open>SiteRule\<close>; its field \<open>id\<close> is \<open>id_rule\<close> here (\<open>id\<close> is HOL's identity function).\<close>

record SiteRule =
  id_rule :: string
  title :: string
  pattern :: string
  matchType :: SiteRuleMatchType
  action :: SiteRuleAction
  enabled :: bool

text \<open>
  What a call can throw, or a promise reject with: a failing \<open>browser.storage.sync\<close> call,
  \<open>new RegExp(pattern)\<close> on a malformed pattern, a failing \<open>browser.runtime.sendMessage\<close>.
  A result \<open>error + 'a\<close> is \<open>Inl\<close> for a throw (a rejected promise) and \<open>Inr\<close> for a
  return (a fulfilled promise).
\<close>

datatype error = StorageError | SyntaxError | MessagingError

section \<open>Pattern matcher (utils/siteRulesMatcher.ts)\<close>

text \<open>
  The regular expression engine is the browser's, not this repository's: it is a parameter.
  \<open>rx pattern\<close> is \<open>new RegExp(pattern)\<close>: \<open>None\<close> when the constructor throws a
  SyntaxError, otherwise the function \<open>url \<mapsto> regexp.test(url)\<close> of the fresh object (no
  flags, so \<open>test\<close> keeps no state between calls).
\<close>

type_synonym RegExp = "string \<Rightarrow> (string \<Rightarrow> bool) option"

definition RegExp_test :: "RegExp \<Rightarrow> string \<Rightarrow> string \<Rightarrow> error + bool" where
  "RegExp_test rx pat url = (case rx pat of None \<Rightarrow> Inl SyntaxError | Some re \<Rightarrow> Inr (re url))"

text \<open>
  \<open>siteRulesMatcher[matchType](url, pattern)\<close>. Strings are sequences of code units:
  \<open>startsWith\<close>, \<open>endsWith\<close> and \<open>includes\<close> are prefix, suffix and contiguous sublist.
\<close>

fun siteRulesMatcher :: "RegExp \<Rightarrow> SiteRuleMatchType \<Rightarrow> string \<Rightarrow> string \<Rightarrow> error + bool" where
  "siteRulesMatcher rx EqualTo url pat = Inr (url = pat)"
| "siteRulesMatcher rx StartsWith url pat = Inr (prefix pat url)"
| "siteRulesMatcher rx EndsWith url pat = Inr (suffix pat url)"
| "siteRulesMatcher rx Contains url pat = Inr (sublist pat url)"
| "siteRulesMatcher rx Regex url pat = RegExp_test rx pat url"
| "siteRulesMatcher rx NotEqualTo url pat = Inr (url \<noteq> pat)"
| "siteRulesMatcher rx NotStartsWith url pat = Inr (\<not> prefix pat url)"
| "siteRulesMatcher rx NotEndsWith url pat = Inr (\<not> suffix pat url)"
| "siteRulesMatcher rx NotContains url pat = Inr (\<not> sublist pat url)"
| "siteRulesMatcher rx NotRegex url pat =
     (case RegExp_test rx pat url of Inl e \<Rightarrow> Inl e | Inr b \<Rightarrow> Inr (\<not> b))"

text \<open>The negation of a matcher's outcome: a returned boolean is negated, a throw stays.\<close>

fun negated :: "error + bool \<Rightarrow> error + bool" where
  "negated (Inl e) = Inl e"
| "negated (Inr b) = Inr (\<not> b)"

text \<open>
  \<open>RulesService.ruleMatchWithUrl\<close>. \<open>siteRulesMatcher\<close> is a \<open>Record\<close> over the whole enum,
  so the lookup always finds a matcher; the source's \<open>else\<close> branch (warn, return false) is
  for a \<open>matchType\<close> outside the enum, which the type \<open>SiteRuleMatchType\<close> has no value for.
\<close>

definition ruleMatchWithUrl :: "RegExp \<Rightarrow> SiteRule \<Rightarrow> string \<Rightarrow> error + bool" where
  "ruleMatchWithUrl rx rule url = siteRulesMatcher rx (matchType rule) url (pattern rule)"

section \<open>The page context: service fields and the browser around them\<close>

text \<open>
  The alert URL that \<open>redirectToAlertPage\<close> builds, kept as its query parameters before
  \<open>encodeURIComponent\<close>: \<open>type\<close>, \<open>currentUrl\<close>, \<open>ruleTitle\<close> and the optional \<open>allowedAt\<close>.
\<close>

record alert_url =
  type_param :: string
  currentUrl_param :: string
  ruleTitle_param :: string
  allowedAt_param :: "number option"

text \<open>
  What the callback of \<open>setInterval\<close> in \<open>applyLimitRule\<close> closes over: the \<open>id\<close> and
  \<open>title\<close> of the parameter \<open>rule\<close>, and \<open>currentUrl\<close>.
\<close>

record monitor =
  monitored_id :: string
  monitored_title :: string
  monitored_url :: string

datatype console_entry = ConsoleLog string | ConsoleError string

text \<open>
  The state one page context holds and touches: the three fields of the \<open>RulesService\<close>
  singleton; the value stored under \<open>STORAGE_KEYS.SITE_RULES\<close> in \<open>browser.storage.sync\<close>
  (\<open>None\<close>: the key is absent) and the payload of every \<open>set\<close> call made so far; the
  console; the alert URL assigned to \<open>window.location.href\<close>, if any; and the running
  interval timers, each with the handle \<open>setInterval\<close> returned for it.
\<close>

record world =
  rules :: "SiteRule list"
  rulesLoaded :: bool
  limitRuleUpdateIntervalRunning :: bool
  sync_storage :: "SiteRule list option"
  set_calls :: "SiteRule list list"
  console :: "console_entry list"
  location_href :: "alert_url option"
  intervals :: "(nat \<times> monitor) list"
  next_interval_id :: nat

text \<open>
  What the environment answers during one call: whether \<open>storage.sync.get\<close> and
  \<open>storage.sync.set\<close> fulfil, the value of \<open>Date.now()\<close> in \<open>updateLimitRuleUsage\<close>, the
  reply to the \<open>getUptime\<close> message, and the value of \<open>Date.now()\<close> at the delay gate.
\<close>

record env =
  storage_get_ok :: bool
  storage_set_ok :: bool
  date_now :: number
  uptime_reply :: "error + number"
  date_now_gate :: number

text \<open>\<open>await p\<close> followed by the rest of an async function: a rejection ends the function.\<close>

fun await :: "(error + 'a) \<times> world \<Rightarrow> ('a \<Rightarrow> world \<Rightarrow> (error + 'b) \<times> world) \<Rightarrow> (error + 'b) \<times> world" where
  "await (Inr v, w) k = k v w"
| "await (Inl e, w) k = (Inl e, w)"

definition storage_sync_get :: "env \<Rightarrow> world \<Rightarrow> error + SiteRule list option" where
  "storage_sync_get ev w = (if storage_get_ok ev then Inr (sync_storage w) else Inl StorageError)"

definition storage_sync_set :: "env \<Rightarrow> SiteRule list \<Rightarrow> world \<Rightarrow> (error + unit) \<times> world" where
  "storage_sync_set ev v w =
     (let w1 = w\<lparr>set_calls := set_calls w @ [v]\<rparr>
      in if storage_set_ok ev then (Inr (), w1\<lparr>sync_storage := Some v\<rparr>) else (Inl StorageError, w1))"

definition setInterval :: "monitor \<Rightarrow> world \<Rightarrow> nat \<times> world" where
  "setInterval m w =
     (next_interval_id w,
      w\<lparr>intervals := intervals w @ [(next_interval_id w, m)], next_interval_id := Suc (next_interval_id w)\<rparr>)"

definition clearInterval :: "nat \<Rightarrow> world \<Rightarrow> world" where
  "clearInterval intervalId w = w\<lparr>intervals := filter (\<lambda>t. fst t \<noteq> intervalId) (intervals w)\<rparr>"

text \<open>\<open>Array.prototype.findIndex\<close>; \<open>None\<close> is the source's \<open>-1\<close>.\<close>

fun findIndex :: "('a \<Rightarrow> bool) \<Rightarrow> 'a list \<Rightarrow> nat option" where
  "findIndex P [] = None"
| "findIndex P (x # xs) = (if P x then Some 0 else map_option Suc (findIndex P xs))"

text \<open>
  \<open>Array.prototype.find\<close> with a callback that may throw: the elements are tried in order,
  a throw of the callback ends the search and propagates. The element found is given by
  its position, since the callers go on to mutate the object found.
\<close>

fun Array_find :: "('a \<Rightarrow> error + bool) \<Rightarrow> 'a list \<Rightarrow> error + nat option" where
  "Array_find p [] = Inr None"
| "Array_find p (x # xs) =
     (case p x of
        Inl e \<Rightarrow> Inl e
      | Inr True \<Rightarrow> Inr (Some 0)
      | Inr False \<Rightarrow>
          (case Array_find p xs of
             Inl e \<Rightarrow> Inl e
           | Inr None \<Rightarrow> Inr None
           | Inr (Some i) \<Rightarrow> Inr (Some (Suc i))))"

section \<open>Rule store (RulesService, the CRUD half)\<close>

definition loadRules :: "env \<Rightarrow> world \<Rightarrow> (error + SiteRule list) \<times> world" where
  "loadRules ev w0 =
     (let w = w0\<lparr>rulesLoaded := True\<rparr>
      in case storage_sync_get ev w of
           Inr result \<Rightarrow>
             (let w' = w\<lparr>rules := (case result of Some rs \<Rightarrow> rs | None \<Rightarrow> [])\<rparr>
              in (Inr (rules w'), w'))
         | Inl err \<Rightarrow>
             (let w' = w\<lparr>console := console w @ [ConsoleError ''Error loading rules:''], rules := []\<rparr>
              in (Inr (rules w'), w')))"

definition saveRules :: "env \<Rightarrow> world \<Rightarrow> (error + unit) \<times> world" where
  "saveRules ev w =
     (case storage_sync_set ev (rules w) w of
        (Inr u, w') \<Rightarrow> (Inr (), w')
      | (Inl err, w') \<Rightarrow> (Inr (), w'\<lparr>console := console w' @ [ConsoleError ''Error saving rules:'']\<rparr>))"

definition getRules :: "world \<Rightarrow> SiteRule list" where
  "getRules w = rules w"

text \<open>
  \<open>Partial<Omit<SiteRule, 'id'>>\<close>: each field present or not; the spread
  \<open>{ ...rule, ...updates }\<close> takes the fields that are present.
\<close>

record updates =
  upd_title :: "string option"
  upd_pattern :: "string option"
  upd_matchType :: "SiteRuleMatchType option"
  upd_action :: "SiteRuleAction option"
  upd_enabled :: "bool option"

definition spread :: "SiteRule \<Rightarrow> updates \<Rightarrow> SiteRule" where
  "spread rule u =
     rule\<lparr>title := (case upd_title u of Some v \<Rightarrow> v | None \<Rightarrow> title rule),
          pattern := (case upd_pattern u of Some v \<Rightarrow> v | None \<Rightarrow> pattern rule),
          matchType := (case upd_matchType u of Some v \<Rightarrow> v | None \<Rightarrow> matchType rule),
          action := (case upd_action u of Some v \<Rightarrow> v | None \<Rightarrow> action rule),
          enabled := (case upd_enabled u of Some v \<Rightarrow> v | None \<Rightarrow> enabled rule)\<rparr>"

definition updateRule :: "env \<Rightarrow> string \<Rightarrow> updates \<Rightarrow> world \<Rightarrow> (error + SiteRule option) \<times> world" where
  "updateRule ev ruleId u w =
     (case findIndex (\<lambda>r. id_rule r = ruleId) (rules w) of
        None \<Rightarrow> (Inr None, w)
      | Some index \<Rightarrow>
          (let w1 = w\<lparr>rules := (rules w)[index := spread (rules w ! index) u]\<rparr>
           in await (saveRules ev w1) (\<lambda>_ w2. (Inr (Some (rules w2 ! index)), w2))))"

definition deleteRule :: "env \<Rightarrow> string \<Rightarrow> world \<Rightarrow> (error + bool) \<times> world" where
  "deleteRule ev ruleId w =
     (let initialLength = length (rules w);
          w1 = w\<lparr>rules := filter (\<lambda>r. id_rule r \<noteq> ruleId) (rules w)\<rparr>
      in if length (rules w1) \<noteq> initialLength
         then await (saveRules ev w1) (\<lambda>_ w2. (Inr True, w2))
         else (Inr False, w1))"

definition toggleRule :: "env \<Rightarrow> string \<Rightarrow> world \<Rightarrow> (error + SiteRule option) \<times> world" where
  "toggleRule ev ruleId w =
     (case find (\<lambda>r. id_rule r = ruleId) (rules w) of
        None \<Rightarrow> (Inr None, w)
      | Some rule \<Rightarrow>
          updateRule ev ruleId
            \<lparr>upd_title = None, upd_pattern = None, upd_matchType = None,
             upd_action = None, upd_enabled = Some (\<not> enabled rule)\<rparr> w)"

text \<open>The two \<open>forEach\<close> loops of \<open>reorderRules\<close>, each a fold that pushes onto \<open>reorderedRules\<close>.\<close>

definition reorderRules :: "env \<Rightarrow> string list \<Rightarrow> world \<Rightarrow> (error + unit) \<times> world" where
  "reorderRules ev newOrder w =
     (let reorderedRules =
            fold (\<lambda>ruleId acc.
                    case find (\<lambda>r. id_rule r = ruleId) (rules w) of
                      Some rule \<Rightarrow> acc @ [rule]
                    | None \<Rightarrow> acc)
                 newOrder [];
          reorderedRules =
            fold (\<lambda>rule acc.
                    if find (\<lambda>r. id_rule r = id_rule rule) acc = None then acc @ [rule] else acc)
                 (rules w) reorderedRules;
          w1 = w\<lparr>rules := reorderedRules\<rparr>
      in saveRules ev w1)"

definition getRuleById :: "string \<Rightarrow> world \<Rightarrow> SiteRule option" where
  "getRuleById ruleId w = find (\<lambda>r. id_rule r = ruleId) (rules w)"

section \<open>Enforcement engine (RulesService, the enforcement half)\<close>

text \<open>
  \<open>redirectToAlertPage\<close>: \<open>allowedAt\<close> joins the query only when it is truthy, that is
  when it was passed and is not \<open>0\<close>; the URL is then assigned to \<open>window.location.href\<close>.
\<close>

definition redirectToAlertPage :: "string \<Rightarrow> string \<Rightarrow> string \<Rightarrow> number option \<Rightarrow> world \<Rightarrow> world" where
  "redirectToAlertPage type currentUrl ruleTitle allowedAt w =
     (let alertUrl = \<lparr>type_param = type, currentUrl_param = currentUrl, ruleTitle_param = ruleTitle,
                       allowedAt_param = None\<rparr>;
          alertUrl = (case allowedAt of
                        Some t \<Rightarrow> if t \<noteq> 0 then alertUrl\<lparr>allowedAt_param := Some t\<rparr> else alertUrl
                      | None \<Rightarrow> alertUrl)
      in w\<lparr>location_href := Some alertUrl\<rparr>)"

definition applyBlockRule :: "SiteRule \<Rightarrow> string \<Rightarrow> world \<Rightarrow> world" where
  "applyBlockRule rule currentUrl w = redirectToAlertPage ''block'' currentUrl (title rule) None w"

text \<open>
  \<open>updateLimitRuleUsage(rule)\<close>. The parameter is a reference to an object of \<open>this.rules\<close>
  (both callers pass one they have just found there): it is the position \<open>i\<close> of that object,
  and the assignments to \<open>rule.action\<close> update the array in place. The three assignments are
  made in the source's order, each reading the fields the one before has written.
\<close>

definition updateLimitRuleUsage :: "env \<Rightarrow> nat \<Rightarrow> world \<Rightarrow> (error + unit) \<times> world" where
  "updateLimitRuleUsage ev i w =
     (case action (rules w ! i) of
        Limit a0 \<Rightarrow>
          (let currentTime = date_now ev;
               a1 = (if currentTime - lastUsedAt a0 \<le> 30000
                     then a0\<lparr>usedMinutes := usedMinutes a0 + (currentTime - lastUsedAt a0) / 60000\<rparr>
                     else a0);
               a2 = (if currentTime - lastResetAt a1 \<ge> resetAfterMinutes a1 * 60 * 1000
                     then a1\<lparr>usedMinutes := 0, lastResetAt := currentTime\<rparr>
                     else a1);
               a3 = a2\<lparr>lastUsedAt := currentTime\<rparr>;
               w1 = w\<lparr>rules := (rules w)[i := (rules w ! i)\<lparr>action := Limit a3\<rparr>]\<rparr>
           in saveRules ev w1)
      | _ \<Rightarrow> (Inr (), w))"

text \<open>
  \<open>applyLimitRule(rule, currentUrl)\<close>, with \<open>rule\<close> again the position \<open>i\<close> in \<open>this.rules\<close>.
  The destructuring of \<open>rule.action\<close> comes after the awaited accounting and reads what it
  wrote. A rejected \<open>sendMessage\<close> rejects the call. In the last branch the flag guards
  \<open>setInterval\<close>; nothing in the class ever sets the flag back to \<open>false\<close>.
\<close>

definition applyLimitRule :: "env \<Rightarrow> nat \<Rightarrow> string \<Rightarrow> world \<Rightarrow> (error + unit) \<times> world" where
  "applyLimitRule ev i currentUrl w0 =
     (case action (rules w0 ! i) of
        Limit _ \<Rightarrow>
          await (updateLimitRuleUsage ev i w0) (\<lambda>_ w.
            let rule = rules w ! i in
            case action rule of
              Limit a \<Rightarrow>
                (let delaySeconds = delayMinutes a * 60 in
                 case uptime_reply ev of
                   Inl e \<Rightarrow> (Inl e, w)
                 | Inr uptimeSec \<Rightarrow>
                     if delaySeconds > uptimeSec
                     then (Inr (), redirectToAlertPage ''limit'' currentUrl (title rule)
                                     (Some (date_now_gate ev + (delaySeconds - uptimeSec) * 1000)) w)
                     else if usedMinutes a \<ge> allowedMinutes a
                     then (Inr (), redirectToAlertPage ''limit'' currentUrl (title rule)
                                     (Some (lastResetAt a + resetAfterMinutes a * 60 * 1000)) w)
                     else if \<not> limitRuleUpdateIntervalRunning w
                     then (let w1 = w\<lparr>limitRuleUpdateIntervalRunning := True\<rparr>;
                               m = \<lparr>monitored_id = id_rule rule, monitored_title = title rule,
                                    monitored_url = currentUrl\<rparr>
                           in (Inr (), snd (setInterval m w1)))
                     else (Inr (), w))
            | _ \<Rightarrow> (Inr (), w))
      | _ \<Rightarrow> (Inr (), w0))"

text \<open>
  One run of the callback given to \<open>setInterval\<close> (every 5000 ms), for the timer with handle
  \<open>intervalId\<close> and closure \<open>m\<close>. The disjunction of the first test is evaluated left to
  right, so a disabled rule is never matched; a throw of the matcher ends the run with the
  timer still set, since only the two \<open>clearInterval\<close> calls remove it.
\<close>

definition monitor_tick :: "RegExp \<Rightarrow> env \<Rightarrow> nat \<Rightarrow> monitor \<Rightarrow> world \<Rightarrow> (error + unit) \<times> world" where
  "monitor_tick rx ev intervalId m w0 =
     await (loadRules ev w0) (\<lambda>_ w.
       case findIndex (\<lambda>r. id_rule r = monitored_id m) (rules w) of
         None \<Rightarrow> (Inr (), clearInterval intervalId w)
       | Some i \<Rightarrow>
           (let freshedRule = rules w ! i in
            if \<not> enabled freshedRule then (Inr (), clearInterval intervalId w)
            else case ruleMatchWithUrl rx freshedRule (monitored_url m) of
                   Inl e \<Rightarrow> (Inl e, w)
                 | Inr False \<Rightarrow> (Inr (), clearInterval intervalId w)
                 | Inr True \<Rightarrow>
                     (case action freshedRule of
                        Limit a \<Rightarrow>
                          if usedMinutes a \<ge> allowedMinutes a
                          then (Inr (), redirectToAlertPage ''limit'' (monitored_url m) (monitored_title m)
                                          (Some (lastResetAt a + resetAfterMinutes a * 60 * 1000))
                                          (clearInterval intervalId w))
                          else updateLimitRuleUsage ev i w
                      | _ \<Rightarrow> (Inr (), clearInterval intervalId w))))"

text \<open>
  \<open>applyRule()\<close>, with \<open>currentUrl\<close> the value read from \<open>window.location.href\<close>. The
  callback of \<open>find\<close> is \<open>rule.enabled && this.ruleMatchWithUrl(rule, currentUrl)\<close>: the
  matcher is not called on a disabled rule.
\<close>

definition applyRule :: "RegExp \<Rightarrow> env \<Rightarrow> string \<Rightarrow> world \<Rightarrow> (error + unit) \<times> world" where
  "applyRule rx ev currentUrl w0 =
     await (if \<not> rulesLoaded w0 then loadRules ev w0 else (Inr (rules w0), w0)) (\<lambda>_ w.
       case Array_find (\<lambda>rule. if enabled rule then ruleMatchWithUrl rx rule currentUrl else Inr False)
              (rules w) of
         Inl e \<Rightarrow> (Inl e, w)
       | Inr None \<Rightarrow> (Inr (), w)
       | Inr (Some i) \<Rightarrow>
           (let matchedRules = rules w ! i in
            case action matchedRules of
              Allow \<Rightarrow>
                (Inr (), w\<lparr>console := console w @ [ConsoleLog (''Allowing access to '' @ pattern matchedRules)]\<rparr>)
            | Block \<Rightarrow> (Inr (), applyBlockRule matchedRules currentUrl w)
            | Limit _ \<Rightarrow> applyLimitRule ev i currentUrl w))"

section \<open>Rule form (FormService.getFormData)\<close>


section \<open>Closed forms and example page contexts used in the statements\<close>

text \<open>
  The accounting step as the specification words it (Step A), from the values before the
  call: usage is counted over a gap of at most 30 seconds, an elapsed window zeroes it and
  restamps \<open>lastResetAt\<close>, and \<open>lastUsedAt\<close> becomes the time of the call.
\<close>

definition accounted :: "number \<Rightarrow> LimitState \<Rightarrow> LimitState" where
  "accounted t a =
     a\<lparr>usedMinutes :=
         (if t - lastResetAt a \<ge> resetAfterMinutes a * 60000 then 0
          else if t - lastUsedAt a \<le> 30000 then usedMinutes a + (t - lastUsedAt a) / 60000
          else usedMinutes a),
       lastResetAt := (if t - lastResetAt a \<ge> resetAfterMinutes a * 60000 then t else lastResetAt a),
       lastUsedAt := t\<rparr>"

text \<open>A page context that has loaded \<open>rs\<close> from storage and done nothing else.\<close>

definition fresh_page :: "SiteRule list \<Rightarrow> world" where
  "fresh_page rs =
     \<lparr>rules = rs, rulesLoaded = True, limitRuleUpdateIntervalRunning = False,
      sync_storage = Some rs, set_calls = [], console = [], location_href = None,
      intervals = [], next_interval_id = 0\<rparr>"

text \<open>An environment whose storage works, at clock \<open>t\<close> (ms) and uptime \<open>up\<close> (s).\<close>

definition env_at :: "number \<Rightarrow> number \<Rightarrow> env" where
  "env_at t up =
     \<lparr>storage_get_ok = True, storage_set_ok = True, date_now = t, uptime_reply = Inr up,
      date_now_gate = t\<rparr>"

definition simple_rule :: "string \<Rightarrow> string \<Rightarrow> SiteRuleAction \<Rightarrow> SiteRule" where
  "simple_rule i pat act =
     \<lparr>id_rule = i, title = ''Rule '' @ i, pattern = pat, matchType = Contains, action = act,
      enabled = True\<rparr>"

text \<open>
  The limit of the preset \<open>limit-youtube\<close> (10 minutes per hour, 60 minutes of startup
  delay) and the same without the delay, both last used and last reset at clock 999000
  with 9.99 minutes used.
\<close>

definition youtube_limit :: LimitState where
  "youtube_limit =
     \<lparr>allowedMinutes = 10, resetAfterMinutes = 60, delayMinutes = 60, usedMinutes = 999 / 100,
      lastResetAt = 999000, lastUsedAt = 999000\<rparr>"

definition hourly_limit :: LimitState where
  "hourly_limit = youtube_limit\<lparr>delayMinutes := 0\<rparr>"

text \<open>
  A stand-in engine that agrees with ECMAScript on the two patterns the examples use:
  \<open>new RegExp("(")\<close> throws a SyntaxError (an unterminated group), and \<open>new RegExp("[]")\<close>
  (an empty class) compiles and matches no string. Its answers on other patterns are not
  used.
\<close>

definition RegExp_unterminated :: RegExp where
  "RegExp_unterminated pat = (if pat = ''('' then None else Some (\<lambda>url. False))"

definition unterminated_rule :: SiteRule where
  "unterminated_rule =
     \<lparr>id_rule = ''x'', title = ''Rule x'', pattern = ''('', matchType = Regex, action = Allow,
      enabled = True\<rparr>"

text \<open>
  A disabled rule for all of YouTube, a rule for another site, and the preset
  \<open>block-youtube-shorts\<close>.
\<close>

definition shorts_rules :: "SiteRule list" where
  "shorts_rules =
     [(simple_rule ''y'' ''youtube.com'' Block)\<lparr>enabled := False\<rparr>,
      simple_rule ''f'' ''facebook.com'' Block,
      simple_rule ''s'' ''youtube.com/shorts'' Block]"



text \<open>A page context in which the monitor of \<open>rule\<close> on \<open>url\<close> has been started.\<close>

definition monitored_page :: "SiteRule \<Rightarrow> string \<Rightarrow> world" where
  "monitored_page rule url =
     (fresh_page [rule])
       \<lparr>limitRuleUpdateIntervalRunning := True,
        intervals := [(0, \<lparr>monitored_id = id_rule rule, monitored_title = title rule, monitored_url = url\<rparr>)],
        next_interval_id := 1\<rparr>"

definition yt_monitor :: monitor where
  "yt_monitor = \<lparr>monitored_id = ''yt'', monitored_title = ''Rule yt'', monitored_url = ''https://youtube.com/''\<rparr>"

text \<open>A limit rule for one section of a site, not yet used, and its monitor.\<close>

definition visited_a :: SiteRule where
  "visited_a = simple_rule ''a'' ''s.example/a'' (Limit (hourly_limit\<lparr>usedMinutes := 0\<rparr>))"

definition a_monitor :: monitor where
  "a_monitor = \<lparr>monitored_id = ''a'', monitored_title = ''Rule a'', monitored_url = ''https://s.example/a''\<rparr>"

section \<open>The page context as a transition system\<close>

text \<open>
  What can happen to a page context: it starts with no timer; a navigation event runs
  \<open>applyRule\<close>; a running timer fires and runs its callback; another context (the options
  page, another tab) writes the stored rules. Each call runs to its end before the next
  event: the interleaving of two calls at their \<open>await\<close>s is not part of this model.
\<close>

inductive reachable :: "RegExp \<Rightarrow> world \<Rightarrow> bool" for rx :: RegExp where
  start: "intervals w = [] \<Longrightarrow> reachable rx w"
| navigation: "reachable rx w \<Longrightarrow> reachable rx (snd (applyRule rx ev url w))"
| tick: "reachable rx w \<Longrightarrow> (h, m) \<in> set (intervals w) \<Longrightarrow>
         reachable rx (snd (monitor_tick rx ev h m w))"
| stored: "reachable rx w \<Longrightarrow> reachable rx (w\<lparr>sync_storage := s\<rparr>)"

text \<open>At most one timer, and a timer only under a set flag.\<close>

definition monitor_guarded :: "world \<Rightarrow> bool" where
  "monitor_guarded w \<longleftrightarrow>
     length (intervals w) \<le> 1 \<and> (intervals w \<noteq> [] \<longrightarrow> limitRuleUpdateIntervalRunning w)"

section \<open>Theorems\<close>

subsection \<open>Helper lemmas\<close>

lemma saveRules_eq:
  "saveRules ev w =
     (Inr (), w\<lparr>set_calls := set_calls w @ [rules w],
                sync_storage := (if storage_set_ok ev then Some (rules w) else sync_storage w),
                console := (if storage_set_ok ev then console w
                            else console w @ [ConsoleError ''Error saving rules:''])\<rparr>)"
  by (simp add: saveRules_def storage_sync_set_def Let_def)

lemma loadRules_eq:
  "loadRules ev w =
     (let rs = (if storage_get_ok ev then (case sync_storage w of Some rs \<Rightarrow> rs | None \<Rightarrow> []) else [])
      in (Inr rs, w\<lparr>rulesLoaded := True, rules := rs,
                     console := (if storage_get_ok ev then console w
                                 else console w @ [ConsoleError ''Error loading rules:''])\<rparr>))"
  by (simp add: loadRules_def storage_sync_get_def Let_def)

lemma updateLimitRuleUsage_Limit:
  "action (rules w ! i) = Limit a \<Longrightarrow>
   updateLimitRuleUsage ev i w =
     saveRules ev (w\<lparr>rules := (rules w)[i := (rules w ! i)\<lparr>action := Limit (accounted (date_now ev) a)\<rparr>]\<rparr>)"
  by (simp add: updateLimitRuleUsage_def accounted_def Let_def)

lemma findIndex_None_iff: "findIndex P xs = None \<longleftrightarrow> (\<forall>x\<in>set xs. \<not> P x)"
  by (induction xs) auto

lemma findIndex_Some:
  "findIndex P xs = Some i \<Longrightarrow> i < length xs \<and> P (xs ! i) \<and> (\<forall>j<i. \<not> P (xs ! j))"
proof (induction xs arbitrary: i)
  case Nil
  then show ?case by simp
next
  case (Cons x xs)
  show ?case
  proof (cases "P x")
    case True
    with Cons.prems show ?thesis by simp
  next
    case False
    with Cons.prems obtain k where k: "findIndex P xs = Some k" "i = Suc k"
      by auto
    from Cons.IH [OF k(1)] False k(2) show ?thesis
      by (auto simp: less_Suc_eq_0_disj)
  qed
qed

lemma fold_push_found:
  "fold (\<lambda>ruleId acc. case find (\<lambda>r. id_rule r = ruleId) rs of Some rule \<Rightarrow> acc @ [rule] | None \<Rightarrow> acc) ids acc
   = acc @ List.map_filter (\<lambda>ruleId. find (\<lambda>r. id_rule r = ruleId) rs) ids"
  by (induction ids arbitrary: acc) (auto split: option.splits)

lemma fold_push_missing:
  "distinct (map id_rule rs) \<Longrightarrow>
   fold (\<lambda>rule acc. if find (\<lambda>r. id_rule r = id_rule rule) acc = None then acc @ [rule] else acc) rs acc
   = acc @ filter (\<lambda>r. id_rule r \<notin> id_rule ` set acc) rs"
proof (induction rs arbitrary: acc)
  case Nil
  then show ?case by simp
next
  case (Cons r rs)
  from Cons.prems have d: "distinct (map id_rule rs)" and "id_rule r \<notin> id_rule ` set rs"
    by auto
  then have fresh: "\<forall>x\<in>set rs. id_rule x \<noteq> id_rule r"
    by (metis imageI)
  let ?push = "\<lambda>rule acc. if find (\<lambda>r. id_rule r = id_rule rule) acc = None then acc @ [rule] else acc"
  show ?case
  proof (cases "id_rule r \<in> id_rule ` set acc")
    case True
    then have "find (\<lambda>x. id_rule x = id_rule r) acc \<noteq> None"
      by (auto simp: find_None_iff)
    then have step: "?push r acc = acc"
      by simp
    have "fold ?push (r # rs) acc = fold ?push rs (?push r acc)"
      by simp
    also have "\<dots> = acc @ filter (\<lambda>r. id_rule r \<notin> id_rule ` set acc) rs"
      unfolding step by (rule Cons.IH [OF d])
    finally show ?thesis using True by simp
  next
    case False
    then have "\<forall>x\<in>set acc. id_rule x \<noteq> id_rule r"
      by (metis imageI)
    then have "find (\<lambda>x. id_rule x = id_rule r) acc = None"
      by (simp add: find_None_iff)
    then have step: "?push r acc = acc @ [r]"
      by simp
    have same: "filter (\<lambda>x. id_rule x \<notin> id_rule ` set (acc @ [r])) rs
        = filter (\<lambda>x. id_rule x \<notin> id_rule ` set acc) rs"
      using fresh by (intro filter_cong) auto
    have "fold ?push (r # rs) acc = fold ?push rs (?push r acc)"
      by simp
    also have "\<dots> = (acc @ [r]) @ filter (\<lambda>x. id_rule x \<notin> id_rule ` set (acc @ [r])) rs"
      unfolding step by (rule Cons.IH [OF d])
    finally show ?thesis using False same by simp
  qed
qed

lemma ids_of_found:
  "id_rule ` set (List.map_filter (\<lambda>ruleId. find (\<lambda>r. id_rule r = ruleId) rs) ids)
   = set ids \<inter> id_rule ` set rs"
proof (induction ids)
  case Nil
  then show ?case by simp
next
  case (Cons i ids)
  show ?case
  proof (cases "find (\<lambda>r. id_rule r = i) rs")
    case None
    then have "i \<notin> id_rule ` set rs" by (auto simp: find_None_iff)
    with None Cons.IH show ?thesis by auto
  next
    case (Some r)
    then have "id_rule r = i" "r \<in> set rs"
      by (auto simp: find_Some_iff)
    with Some Cons.IH show ?thesis by auto
  qed
qed

lemma accounted_settings:
  "allowedMinutes (accounted t a) = allowedMinutes a"
  "resetAfterMinutes (accounted t a) = resetAfterMinutes a"
  "delayMinutes (accounted t a) = delayMinutes a"
  "lastUsedAt (accounted t a) = t"
  by (simp_all add: accounted_def)

lemma minutes_to_ms: "x * 60 * 1000 = x * (60000 :: rat)"
  by simp

lemma updateLimitRuleUsage_world:
  assumes "action (rules w ! i) = Limit a"
  shows "updateLimitRuleUsage ev i w =
     (Inr (), w\<lparr>rules := (rules w)[i := (rules w ! i)\<lparr>action := Limit (accounted (date_now ev) a)\<rparr>],
                set_calls := set_calls w @ [(rules w)[i := (rules w ! i)\<lparr>action := Limit (accounted (date_now ev) a)\<rparr>]],
                sync_storage := (if storage_set_ok ev
                                 then Some ((rules w)[i := (rules w ! i)\<lparr>action := Limit (accounted (date_now ev) a)\<rparr>])
                                 else sync_storage w),
                console := (if storage_set_ok ev then console w
                            else console w @ [ConsoleError ''Error saving rules:''])\<rparr>)"
  by (simp add: updateLimitRuleUsage_Limit [OF assms] saveRules_eq)

lemma applyLimitRule_Limit:
  assumes "i < length (rules w)" and "action (rules w ! i) = Limit a"
  shows "applyLimitRule ev i currentUrl w =
    (let a' = accounted (date_now ev) a;
         w1 = snd (updateLimitRuleUsage ev i w);
         delaySeconds = delayMinutes a * 60
     in case uptime_reply ev of
          Inl e \<Rightarrow> (Inl e, w1)
        | Inr uptimeSec \<Rightarrow>
            if delaySeconds > uptimeSec
            then (Inr (), redirectToAlertPage ''limit'' currentUrl (title (rules w ! i))
                            (Some (date_now_gate ev + (delaySeconds - uptimeSec) * 1000)) w1)
            else if usedMinutes a' \<ge> allowedMinutes a
            then (Inr (), redirectToAlertPage ''limit'' currentUrl (title (rules w ! i))
                            (Some (lastResetAt a' + resetAfterMinutes a * 60000)) w1)
            else if \<not> limitRuleUpdateIntervalRunning w
            then (Inr (), snd (setInterval \<lparr>monitored_id = id_rule (rules w ! i),
                                           monitored_title = title (rules w ! i),
                                           monitored_url = currentUrl\<rparr>
                                 (w1\<lparr>limitRuleUpdateIntervalRunning := True\<rparr>)))
            else (Inr (), w1))"
  using assms(1)
  by (simp add: applyLimitRule_def assms(2) updateLimitRuleUsage_world [OF assms(2)] accounted_settings
        minutes_to_ms Let_def del: mult_numeral_left_semiring_numeral split: sum.split)

lemma redirectToAlertPage_href:
  "location_href (redirectToAlertPage ty u t (Some x) w) =
     Some \<lparr>type_param = ty, currentUrl_param = u, ruleTitle_param = t,
           allowedAt_param = (if x = 0 then None else Some x)\<rparr>"
  by (simp add: redirectToAlertPage_def Let_def)

lemma Array_find_end:
  "\<forall>p\<in>set pre. f p = Inr False \<Longrightarrow> Array_find f pre = Inr None"
  by (induction pre) auto

lemma Array_find_hit:
  "\<forall>p\<in>set pre. f p = Inr False \<Longrightarrow> f r = Inr True \<Longrightarrow>
   Array_find f (pre @ r # rest) = Inr (Some (length pre))"
  by (induction pre) auto

lemma applyRule_ensure_loaded:
  assumes "w1 = (if rulesLoaded w then w else snd (loadRules ev w))"
  shows "applyRule rx ev url w =
     (case Array_find (\<lambda>rule. if enabled rule then ruleMatchWithUrl rx rule url else Inr False) (rules w1) of
         Inl e \<Rightarrow> (Inl e, w1)
       | Inr None \<Rightarrow> (Inr (), w1)
       | Inr (Some i) \<Rightarrow>
           (case action (rules w1 ! i) of
              Allow \<Rightarrow>
                (Inr (), w1\<lparr>console := console w1 @ [ConsoleLog (''Allowing access to '' @ pattern (rules w1 ! i))]\<rparr>)
            | Block \<Rightarrow> (Inr (), applyBlockRule (rules w1 ! i) url w1)
            | Limit _ \<Rightarrow> applyLimitRule ev i url w1))"
  unfolding applyRule_def Let_def assms
  by (cases "rulesLoaded w")
     (simp_all add: loadRules_eq Let_def split: sum.split option.split SiteRuleAction.split)

lemma find_findIndex: "find P xs = map_option (nth xs) (findIndex P xs)"
  by (induction xs) (simp_all add: option.map_comp comp_def)

lemma loadRules_fulfils: "fst (loadRules ev w) = Inr (rules (snd (loadRules ev w)))"
  by (simp add: loadRules_def storage_sync_get_def Let_def)

lemma monitor_tick_loaded:
  assumes "w1 = snd (loadRules ev w)"
  shows "monitor_tick rx ev h m w =
     (case findIndex (\<lambda>r. id_rule r = monitored_id m) (rules w1) of
         None \<Rightarrow> (Inr (), clearInterval h w1)
       | Some i \<Rightarrow>
           if \<not> enabled (rules w1 ! i) then (Inr (), clearInterval h w1)
           else (case ruleMatchWithUrl rx (rules w1 ! i) (monitored_url m) of
                   Inl e \<Rightarrow> (Inl e, w1)
                 | Inr False \<Rightarrow> (Inr (), clearInterval h w1)
                 | Inr True \<Rightarrow>
                     (case action (rules w1 ! i) of
                        Limit a \<Rightarrow>
                          (if usedMinutes a \<ge> allowedMinutes a
                           then (Inr (), redirectToAlertPage ''limit'' (monitored_url m) (monitored_title m)
                                           (Some (lastResetAt a + resetAfterMinutes a * 60000))
                                           (clearInterval h w1))
                           else updateLimitRuleUsage ev i w1)
                      | _ \<Rightarrow> (Inr (), clearInterval h w1))))"
proof -
  have "loadRules ev w = (Inr (rules w1), w1)"
    unfolding assms using loadRules_fulfils [of ev w] by (cases "loadRules ev w") simp
  then show ?thesis
    unfolding monitor_tick_def Let_def
    by (simp add: minutes_to_ms del: mult_numeral_left_semiring_numeral
          split: option.split sum.split bool.split SiteRuleAction.split)
qed

lemma visited_a_matches:
  "ruleMatchWithUrl rx visited_a ''https://s.example/a'' = Inr True"
  "ruleMatchWithUrl rx (visited_a\<lparr>pattern := ''s.example/b''\<rparr>) ''https://s.example/a'' = Inr False"
  "ruleMatchWithUrl rx (visited_a\<lparr>pattern := ''s.example/b''\<rparr>) ''https://s.example/b'' = Inr True"
  by (simp_all add: visited_a_def simple_rule_def ruleMatchWithUrl_def sublist_code(3))

lemma visited_a_fields:
  "enabled visited_a" "id_rule visited_a = ''a''" "title visited_a = ''Rule a''"
  "action visited_a = Limit (hourly_limit\<lparr>usedMinutes := 0\<rparr>)"
  by (simp_all add: visited_a_def simple_rule_def)

lemma first_grant_starts_monitor:
  "snd (applyRule rx (env_at 1000000 3600) ''https://s.example/a'' (fresh_page [visited_a]))
   = (fresh_page [visited_a\<lparr>action := Limit (hourly_limit\<lparr>usedMinutes := 1 / 60, lastUsedAt := 1000000\<rparr>)\<rparr>])
       \<lparr>set_calls := [[visited_a\<lparr>action := Limit (hourly_limit\<lparr>usedMinutes := 1 / 60, lastUsedAt := 1000000\<rparr>)\<rparr>]],
        limitRuleUpdateIntervalRunning := True, intervals := [(0, a_monitor)], next_interval_id := 1\<rparr>"
  by (simp add: applyRule_def applyLimitRule_def updateLimitRuleUsage_def saveRules_eq setInterval_def
        Let_def fresh_page_def env_at_def visited_a_matches visited_a_fields a_monitor_def hourly_limit_def youtube_limit_def)

lemma edited_rule_stops_monitor:
  "snd (monitor_tick rx (env_at 1005000 3605) 0 a_monitor
         ((fresh_page [visited_a\<lparr>action := Limit (hourly_limit\<lparr>usedMinutes := 1 / 60, lastUsedAt := 1000000\<rparr>)\<rparr>])
            \<lparr>set_calls := [[visited_a\<lparr>action := Limit (hourly_limit\<lparr>usedMinutes := 1 / 60, lastUsedAt := 1000000\<rparr>)\<rparr>]],
             limitRuleUpdateIntervalRunning := True, intervals := [(0, a_monitor)], next_interval_id := 1,
             sync_storage := Some [visited_a\<lparr>pattern := ''s.example/b''\<rparr>]\<rparr>))
   = (fresh_page [visited_a\<lparr>pattern := ''s.example/b''\<rparr>])
       \<lparr>set_calls := [[visited_a\<lparr>action := Limit (hourly_limit\<lparr>usedMinutes := 1 / 60, lastUsedAt := 1000000\<rparr>)\<rparr>]],
        limitRuleUpdateIntervalRunning := True, next_interval_id := 1\<rparr>"
  by (simp add: monitor_tick_def loadRules_eq clearInterval_def Let_def fresh_page_def env_at_def
        visited_a_matches visited_a_fields a_monitor_def)

lemma second_grant_starts_nothing:
  "applyRule rx (env_at 1010000 3610) ''https://s.example/b''
      ((fresh_page [visited_a\<lparr>pattern := ''s.example/b''\<rparr>])
       \<lparr>set_calls := [[visited_a\<lparr>action := Limit (hourly_limit\<lparr>usedMinutes := 1 / 60, lastUsedAt := 1000000\<rparr>)\<rparr>]],
        limitRuleUpdateIntervalRunning := True, next_interval_id := 1\<rparr>)
   = (Inr (),
      (fresh_page [visited_a\<lparr>pattern := ''s.example/b'',
                            action := Limit (hourly_limit\<lparr>usedMinutes := 11 / 60, lastUsedAt := 1010000\<rparr>)\<rparr>])
       \<lparr>set_calls := [[visited_a\<lparr>action := Limit (hourly_limit\<lparr>usedMinutes := 1 / 60, lastUsedAt := 1000000\<rparr>)\<rparr>],
                      [visited_a\<lparr>pattern := ''s.example/b'',
                            action := Limit (hourly_limit\<lparr>usedMinutes := 11 / 60, lastUsedAt := 1010000\<rparr>)\<rparr>]],
        limitRuleUpdateIntervalRunning := True, next_interval_id := 1\<rparr>)"
  by (simp add: applyRule_def applyLimitRule_def updateLimitRuleUsage_def saveRules_eq
        Let_def fresh_page_def env_at_def visited_a_matches visited_a_fields hourly_limit_def youtube_limit_def)

lemma loadRules_timers:
  "intervals (snd (loadRules ev w)) = intervals w"
  "limitRuleUpdateIntervalRunning (snd (loadRules ev w)) = limitRuleUpdateIntervalRunning w"
  by (simp_all add: loadRules_eq Let_def)

lemma updateLimitRuleUsage_timers:
  "intervals (snd (updateLimitRuleUsage ev i w)) = intervals w"
  "limitRuleUpdateIntervalRunning (snd (updateLimitRuleUsage ev i w)) = limitRuleUpdateIntervalRunning w"
  by (simp_all add: updateLimitRuleUsage_def saveRules_eq Let_def split: SiteRuleAction.split)

lemma redirectToAlertPage_timers:
  "intervals (redirectToAlertPage ty u t a w) = intervals w"
  "limitRuleUpdateIntervalRunning (redirectToAlertPage ty u t a w) = limitRuleUpdateIntervalRunning w"
  by (simp_all add: redirectToAlertPage_def Let_def split: option.split)

lemma guarded_eq:
  "intervals w' = intervals w \<Longrightarrow> limitRuleUpdateIntervalRunning w' = limitRuleUpdateIntervalRunning w \<Longrightarrow>
   monitor_guarded w' = monitor_guarded w"
  by (simp add: monitor_guarded_def)

lemma guarded_steps:
  "monitor_guarded (snd (loadRules ev w)) = monitor_guarded w"
  "monitor_guarded (snd (updateLimitRuleUsage ev i w)) = monitor_guarded w"
  "monitor_guarded (redirectToAlertPage ty u t a w) = monitor_guarded w"
  by (rule guarded_eq, simp_all add: loadRules_timers updateLimitRuleUsage_timers redirectToAlertPage_timers)+

lemma clearInterval_guarded: "monitor_guarded w \<Longrightarrow> monitor_guarded (clearInterval h w)"
proof -
  assume g: "monitor_guarded w"
  let ?kept = "filter (\<lambda>t. fst t \<noteq> h) (intervals w)"
  from g have bound: "length (intervals w) \<le> 1"
    and flag: "intervals w \<noteq> [] \<longrightarrow> limitRuleUpdateIntervalRunning w"
    by (simp_all add: monitor_guarded_def)
  have "length ?kept \<le> length (intervals w)"
    by (rule length_filter_le)
  with bound have 1: "length ?kept \<le> 1"
    by linarith
  have "?kept \<noteq> [] \<longrightarrow> intervals w \<noteq> []"
    by auto
  with flag have 2: "?kept \<noteq> [] \<longrightarrow> limitRuleUpdateIntervalRunning w"
    by blast
  from 1 2 show ?thesis
    by (simp add: monitor_guarded_def clearInterval_def)
qed

lemma setInterval_guarded:
  "monitor_guarded w \<Longrightarrow> \<not> limitRuleUpdateIntervalRunning w \<Longrightarrow>
   monitor_guarded (snd (setInterval m (w\<lparr>limitRuleUpdateIntervalRunning := True\<rparr>)))"
  by (auto simp: monitor_guarded_def setInterval_def)

lemma updateLimitRuleUsage_fulfils:
  "updateLimitRuleUsage ev i w = (Inr (), snd (updateLimitRuleUsage ev i w))"
  by (simp add: updateLimitRuleUsage_def saveRules_eq Let_def split: SiteRuleAction.split)

lemma applyLimitRule_guarded:
  assumes "monitor_guarded w"
  shows "monitor_guarded (snd (applyLimitRule ev i url w))"
proof -
  let ?w1 = "snd (updateLimitRuleUsage ev i w)"
  have g1: "monitor_guarded ?w1"
    using assms by (simp add: guarded_steps)
  have flag: "limitRuleUpdateIntervalRunning ?w1 = limitRuleUpdateIntervalRunning w"
    by (simp add: updateLimitRuleUsage_timers)
  show ?thesis
    unfolding applyLimitRule_def Let_def
    by (subst updateLimitRuleUsage_fulfils)
       (simp add: assms g1 guarded_steps setInterval_guarded
          split: SiteRuleAction.split sum.split)
qed

lemma applyRule_guarded:
  assumes "monitor_guarded w"
  shows "monitor_guarded (snd (applyRule rx ev url w))"
proof -
  define w1 where "w1 = (if rulesLoaded w then w else snd (loadRules ev w))"
  have g1: "monitor_guarded w1"
    using assms by (simp add: w1_def guarded_steps)
  have "monitor_guarded (w1\<lparr>console := c\<rparr>)" for c
    using g1 by (simp add: monitor_guarded_def)
  with g1 show ?thesis
    by (simp add: applyRule_ensure_loaded [OF w1_def] applyLimitRule_guarded applyBlockRule_def
          guarded_steps split: sum.split option.split SiteRuleAction.split)
qed

lemma monitor_tick_guarded:
  assumes "monitor_guarded w"
  shows "monitor_guarded (snd (monitor_tick rx ev h m w))"
proof -
  have g1: "monitor_guarded (snd (loadRules ev w))"
    using assms by (simp add: guarded_steps)
  then show ?thesis
    by (simp add: monitor_tick_loaded [OF refl] clearInterval_guarded guarded_steps
          split: sum.split option.split bool.split SiteRuleAction.split)
qed

subsection \<open>Rule store\<close>

text \<open>
  C9. \<open>loadRules\<close> never rejects: it fulfils with the rule sequence it has put in the cache,
  which is empty when the read fails or the key is absent (and the stored sequence
  otherwise); a failed read is logged. \<open>saveRules\<close> never rejects either: it fulfils, leaves
  the cached sequence as it is, and logs the error when the write fails.
\<close>

theorem load_and_save_swallow_storage_failures:
  "fst (loadRules ev w) = Inr (rules (snd (loadRules ev w)))
 \<and> rules (snd (loadRules ev w)) =
     (if storage_get_ok ev then (case sync_storage w of Some rs \<Rightarrow> rs | None \<Rightarrow> []) else [])
 \<and> console (snd (loadRules ev w)) =
     (if storage_get_ok ev then console w else console w @ [ConsoleError ''Error loading rules:''])
 \<and> fst (saveRules ev w) = Inr ()
 \<and> rules (snd (saveRules ev w)) = rules w
 \<and> console (snd (saveRules ev w)) =
     (if storage_set_ok ev then console w else console w @ [ConsoleError ''Error saving rules:''])"
  by (simp add: loadRules_eq saveRules_eq Let_def)

text \<open>
  C10. When no stored rule has the given id, \<open>updateRule\<close> and \<open>toggleRule\<close> fulfil with
  \<open>null\<close> and \<open>deleteRule\<close> with \<open>false\<close>, and the whole page context is as before: the
  same rule sequence, the same stored value and no further \<open>set\<close> call.
\<close>

theorem not_found_leaves_store_untouched:
  assumes "ruleId \<notin> id_rule ` set (rules w)"
  shows "updateRule ev ruleId u w = (Inr None, w)
       \<and> toggleRule ev ruleId w = (Inr None, w)
       \<and> deleteRule ev ruleId w = (Inr False, w)"
proof -
  from assms have none: "\<forall>r\<in>set (rules w). id_rule r \<noteq> ruleId"
    by auto
  then have "findIndex (\<lambda>r. id_rule r = ruleId) (rules w) = None"
    by (simp add: findIndex_None_iff)
  then have upd: "updateRule ev ruleId u w = (Inr None, w)"
    by (simp add: updateRule_def)
  from none have "find (\<lambda>r. id_rule r = ruleId) (rules w) = None"
    by (simp add: find_None_iff)
  then have tog: "toggleRule ev ruleId w = (Inr None, w)"
    by (simp add: toggleRule_def)
  from none have "filter (\<lambda>r. id_rule r \<noteq> ruleId) (rules w) = rules w"
    by (simp add: filter_id_conv)
  then have del: "deleteRule ev ruleId w = (Inr False, w)"
    by (simp add: deleteRule_def Let_def)
  from upd tog del show ?thesis by simp
qed

theorem not_found_leaves_store_untouched_witness:
  "''zz'' \<notin> id_rule ` set (rules (fresh_page [simple_rule ''a'' ''example.com'' Block]))
 \<and> (\<forall>ev u. updateRule ev ''zz'' u (fresh_page [simple_rule ''a'' ''example.com'' Block]) =
             (Inr None, fresh_page [simple_rule ''a'' ''example.com'' Block]))
 \<and> (\<forall>ev. deleteRule ev ''zz'' (fresh_page [simple_rule ''a'' ''example.com'' Block]) =
             (Inr False, fresh_page [simple_rule ''a'' ''example.com'' Block]))
 \<and> (\<forall>ev. set_calls (snd (toggleRule ev ''zz'' (fresh_page [simple_rule ''a'' ''example.com'' Block]))) = [])"
proof -
  have h: "''zz'' \<notin> id_rule ` set (rules (fresh_page [simple_rule ''a'' ''example.com'' Block]))"
    by (simp add: fresh_page_def simple_rule_def)
  have "set_calls (fresh_page [simple_rule ''a'' ''example.com'' Block]) = []"
    by (simp add: fresh_page_def)
  with h not_found_leaves_store_untouched [OF h] show ?thesis
    by simp
qed

text \<open>
  C8. For a store whose rules have pairwise distinct ids (the data model's unique \<open>id\<close>) and
  every id sequence, \<open>reorderRules\<close> leaves the sequence that lists, for each id of the
  input in input order, the stored rule with that id (an id no stored rule has adds
  nothing), followed by the stored rules whose id is not in the input, in their stored
  order. On the store \<open>[a, b, c]\<close> the input \<open>[c, a]\<close> gives \<open>[c, a, b]\<close>.
\<close>

theorem reorderRules_order:
  assumes "distinct (map id_rule (rules w))"
  shows "fst (reorderRules ev newOrder w) = Inr ()
       \<and> rules (snd (reorderRules ev newOrder w)) =
           List.map_filter (\<lambda>ruleId. find (\<lambda>r. id_rule r = ruleId) (rules w)) newOrder
           @ filter (\<lambda>r. id_rule r \<notin> set newOrder) (rules w)"
proof -
  let ?found = "List.map_filter (\<lambda>ruleId. find (\<lambda>r. id_rule r = ruleId) (rules w)) newOrder"
  have "filter (\<lambda>r. id_rule r \<notin> id_rule ` set ?found) (rules w)
      = filter (\<lambda>r. id_rule r \<notin> set newOrder) (rules w)"
    by (intro filter_cong) (auto simp: ids_of_found)
  then show ?thesis
    using fold_push_missing [OF assms, of ?found]
    by (simp add: reorderRules_def Let_def saveRules_eq fold_push_found [of "rules w" newOrder "[]", simplified])
qed

theorem reorderRules_order_witness:
  "distinct (map id_rule (rules (fresh_page
       [simple_rule ''a'' ''a.com'' Block, simple_rule ''b'' ''b.com'' Allow, simple_rule ''c'' ''c.com'' Block])))
 \<and> (\<forall>ev. rules (snd (reorderRules ev [''c'', ''a''] (fresh_page
       [simple_rule ''a'' ''a.com'' Block, simple_rule ''b'' ''b.com'' Allow, simple_rule ''c'' ''c.com'' Block])))
     = [simple_rule ''c'' ''c.com'' Block, simple_rule ''a'' ''a.com'' Block, simple_rule ''b'' ''b.com'' Allow])"
proof -
  let ?w = "fresh_page
       [simple_rule ''a'' ''a.com'' Block, simple_rule ''b'' ''b.com'' Allow, simple_rule ''c'' ''c.com'' Block]"
  have h: "distinct (map id_rule (rules ?w))"
    by (simp add: fresh_page_def simple_rule_def)
  have "rules (snd (reorderRules ev [''c'', ''a''] ?w))
      = [simple_rule ''c'' ''c.com'' Block, simple_rule ''a'' ''a.com'' Block, simple_rule ''b'' ''b.com'' Allow]" for ev
    using reorderRules_order [OF h, of ev "[''c'', ''a'']"]
    by (simp add: fresh_page_def simple_rule_def)
  with h show ?thesis by simp
qed

subsection \<open>Limit rules: accounting and the two gates\<close>

text \<open>
  C2. One call of \<open>updateLimitRuleUsage\<close> on a Limit rule at time \<open>now\<close> fulfils and leaves
  the rule with: \<open>usedMinutes\<close> increased by \<open>(now - lastUsedAt) / 60000\<close> exactly when
  \<open>now - lastUsedAt \<le> 30000\<close>, and after that set to \<open>0\<close>, with \<open>lastResetAt = now\<close>, when
  \<open>now - lastResetAt \<ge> resetAfterMinutes * 60000\<close>; \<open>lastUsedAt = now\<close> in every case; the
  other rules untouched. It then calls \<open>storage.sync.set\<close> with the whole updated collection,
  which is what storage holds afterwards when the write succeeds. Over a gap longer than
  30 seconds \<open>usedMinutes\<close> keeps its value or is reset to \<open>0\<close>.
\<close>

theorem updateLimitRuleUsage_accounting:
  assumes "i < length (rules w)" and "action (rules w ! i) = Limit a"
  shows "let now = date_now ev;
             w' = snd (updateLimitRuleUsage ev i w);
             counted = (if now - lastUsedAt a \<le> 30000
                        then usedMinutes a + (now - lastUsedAt a) / 60000 else usedMinutes a);
             elapsed = (now - lastResetAt a \<ge> resetAfterMinutes a * 60000);
             a' = a\<lparr>usedMinutes := (if elapsed then 0 else counted),
                    lastResetAt := (if elapsed then now else lastResetAt a),
                    lastUsedAt := now\<rparr>
         in fst (updateLimitRuleUsage ev i w) = Inr ()
          \<and> action (rules w' ! i) = Limit a'
          \<and> rules w' = (rules w)[i := (rules w ! i)\<lparr>action := Limit a'\<rparr>]
          \<and> set_calls w' = set_calls w @ [rules w']
          \<and> sync_storage w' = (if storage_set_ok ev then Some (rules w') else sync_storage w)
          \<and> (now - lastUsedAt a > 30000 \<longrightarrow> usedMinutes a' = usedMinutes a \<or> usedMinutes a' = 0)"
  using assms(1) by (simp add: updateLimitRuleUsage_world [OF assms(2)] accounted_def Let_def)

theorem updateLimitRuleUsage_accounting_witness:
  "0 < length (rules (fresh_page [simple_rule ''yt'' ''youtube.com'' (Limit hourly_limit)]))
 \<and> action (rules (fresh_page [simple_rule ''yt'' ''youtube.com'' (Limit hourly_limit)]) ! 0) = Limit hourly_limit
 \<and> action (rules (snd (updateLimitRuleUsage (env_at 1000000 3600) 0
              (fresh_page [simple_rule ''yt'' ''youtube.com'' (Limit hourly_limit)]))) ! 0)
     = Limit (hourly_limit\<lparr>usedMinutes := 999 / 100 + 1 / 60, lastUsedAt := 1000000\<rparr>)
 \<and> action (rules (snd (updateLimitRuleUsage (env_at 1100000 3700) 0
              (fresh_page [simple_rule ''yt'' ''youtube.com'' (Limit hourly_limit)]))) ! 0)
     = Limit (hourly_limit\<lparr>lastUsedAt := 1100000\<rparr>)
 \<and> action (rules (snd (updateLimitRuleUsage (env_at 5000000 3600) 0
              (fresh_page [simple_rule ''yt'' ''youtube.com'' (Limit hourly_limit)]))) ! 0)
     = Limit (hourly_limit\<lparr>usedMinutes := 0, lastResetAt := 5000000, lastUsedAt := 5000000\<rparr>)"
proof -
  let ?w = "fresh_page [simple_rule ''yt'' ''youtube.com'' (Limit hourly_limit)]"
  have h1: "0 < length (rules ?w)"
    by (simp add: fresh_page_def)
  have h2: "action (rules ?w ! 0) = Limit hourly_limit"
    by (simp add: fresh_page_def simple_rule_def)
  from updateLimitRuleUsage_accounting [OF h1 h2, of "env_at 1000000 3600"]
       updateLimitRuleUsage_accounting [OF h1 h2, of "env_at 1100000 3700"]
       updateLimitRuleUsage_accounting [OF h1 h2, of "env_at 5000000 3600"] h1 h2
  show ?thesis
    by (simp add: Let_def env_at_def hourly_limit_def youtube_limit_def)
qed

text \<open>
  C3. When a Limit rule fires and the uptime request is answered with \<open>uptimeSec\<close>, the
  accounting step runs first and the gates read what it wrote: if
  \<open>delayMinutes * 60 > uptimeSec\<close> the engine calls the redirect with type \<open>limit\<close> and
  \<open>allowedAt = now + (delayMinutes * 60 - uptimeSec) * 1000\<close>; otherwise, if
  \<open>usedMinutes \<ge> allowedMinutes\<close>, with type \<open>limit\<close> and
  \<open>allowedAt = lastResetAt + resetAfterMinutes * 60000\<close>; otherwise the call fulfils and
  assigns no URL. Either redirect assigns an alert URL that carries the type, the current
  URL and the rule's title, and \<open>allowedAt\<close> (which the source leaves out of the query only
  when its value is \<open>0\<close>).
\<close>

theorem applyLimitRule_gates:
  assumes "i < length (rules w)" and "action (rules w ! i) = Limit a"
    and "uptime_reply ev = Inr uptimeSec"
  shows "let a' = accounted (date_now ev) a;
             w1 = snd (updateLimitRuleUsage ev i w);
             ruleTitle = title (rules w ! i);
             now = date_now_gate ev
         in (delayMinutes a * 60 > uptimeSec \<longrightarrow>
               applyLimitRule ev i currentUrl w =
                 (Inr (), redirectToAlertPage ''limit'' currentUrl ruleTitle
                            (Some (now + (delayMinutes a * 60 - uptimeSec) * 1000)) w1))
          \<and> (\<not> delayMinutes a * 60 > uptimeSec \<and> usedMinutes a' \<ge> allowedMinutes a \<longrightarrow>
               applyLimitRule ev i currentUrl w =
                 (Inr (), redirectToAlertPage ''limit'' currentUrl ruleTitle
                            (Some (lastResetAt a' + resetAfterMinutes a * 60000)) w1))
          \<and> (\<not> delayMinutes a * 60 > uptimeSec \<and> \<not> usedMinutes a' \<ge> allowedMinutes a \<longrightarrow>
               fst (applyLimitRule ev i currentUrl w) = Inr ()
             \<and> location_href (snd (applyLimitRule ev i currentUrl w)) = location_href w)
          \<and> (\<forall>t. location_href (redirectToAlertPage ''limit'' currentUrl ruleTitle (Some t) w1) =
                   Some \<lparr>type_param = ''limit'', currentUrl_param = currentUrl,
                         ruleTitle_param = ruleTitle,
                         allowedAt_param = (if t = 0 then None else Some t)\<rparr>)"
  by (simp add: applyLimitRule_Limit [OF assms(1,2)] assms(3) redirectToAlertPage_href Let_def
        updateLimitRuleUsage_world [OF assms(2)] setInterval_def)

theorem applyLimitRule_gates_witness:
  "location_href (snd (applyLimitRule (env_at 1000000 120) 0 ''https://youtube.com/''
       (fresh_page [simple_rule ''yt'' ''youtube.com'' (Limit youtube_limit)])))
     = Some \<lparr>type_param = ''limit'', currentUrl_param = ''https://youtube.com/'',
             ruleTitle_param = ''Rule yt'', allowedAt_param = Some 4480000\<rparr>
 \<and> location_href (snd (applyLimitRule (env_at 1000000 3600) 0 ''https://youtube.com/''
       (fresh_page [simple_rule ''yt'' ''youtube.com'' (Limit hourly_limit)])))
     = Some \<lparr>type_param = ''limit'', currentUrl_param = ''https://youtube.com/'',
             ruleTitle_param = ''Rule yt'', allowedAt_param = Some 4599000\<rparr>
 \<and> fst (applyLimitRule (env_at 1000000 3600) 0 ''https://youtube.com/''
       (fresh_page [simple_rule ''yt'' ''youtube.com'' (Limit (hourly_limit\<lparr>usedMinutes := 0\<rparr>))]))
     = Inr ()
 \<and> location_href (snd (applyLimitRule (env_at 1000000 3600) 0 ''https://youtube.com/''
       (fresh_page [simple_rule ''yt'' ''youtube.com'' (Limit (hourly_limit\<lparr>usedMinutes := 0\<rparr>))])))
     = None"
proof -
  let ?delayed = "fresh_page [simple_rule ''yt'' ''youtube.com'' (Limit youtube_limit)]"
  let ?used_up = "fresh_page [simple_rule ''yt'' ''youtube.com'' (Limit hourly_limit)]"
  let ?unused = "fresh_page [simple_rule ''yt'' ''youtube.com'' (Limit (hourly_limit\<lparr>usedMinutes := 0\<rparr>))]"
  have len: "0 < length (rules ?delayed)" "0 < length (rules ?used_up)" "0 < length (rules ?unused)"
    by (simp_all add: fresh_page_def)
  have act: "action (rules ?delayed ! 0) = Limit youtube_limit"
    "action (rules ?used_up ! 0) = Limit hourly_limit"
    "action (rules ?unused ! 0) = Limit (hourly_limit\<lparr>usedMinutes := 0\<rparr>)"
    by (simp_all add: fresh_page_def simple_rule_def)
  have up: "uptime_reply (env_at 1000000 120) = Inr 120" "uptime_reply (env_at 1000000 3600) = Inr 3600"
    by (simp_all add: env_at_def)
  have g1: "location_href (snd (applyLimitRule (env_at 1000000 120) 0 ''https://youtube.com/'' ?delayed))
     = Some \<lparr>type_param = ''limit'', currentUrl_param = ''https://youtube.com/'',
             ruleTitle_param = ''Rule yt'', allowedAt_param = Some 4480000\<rparr>"
    using applyLimitRule_gates [OF len(1) act(1) up(1), of "''https://youtube.com/''"]
    by (simp add: Let_def fresh_page_def simple_rule_def youtube_limit_def env_at_def)
  have g2: "location_href (snd (applyLimitRule (env_at 1000000 3600) 0 ''https://youtube.com/'' ?used_up))
     = Some \<lparr>type_param = ''limit'', currentUrl_param = ''https://youtube.com/'',
             ruleTitle_param = ''Rule yt'', allowedAt_param = Some 4599000\<rparr>"
    using applyLimitRule_gates [OF len(2) act(2) up(2), of "''https://youtube.com/''"]
    by (simp add: Let_def fresh_page_def simple_rule_def hourly_limit_def youtube_limit_def env_at_def accounted_def)
  have g3: "fst (applyLimitRule (env_at 1000000 3600) 0 ''https://youtube.com/'' ?unused) = Inr ()
     \<and> location_href (snd (applyLimitRule (env_at 1000000 3600) 0 ''https://youtube.com/'' ?unused)) = None"
    using applyLimitRule_gates [OF len(3) act(3) up(2), of "''https://youtube.com/''"]
    by (simp add: Let_def fresh_page_def simple_rule_def hourly_limit_def youtube_limit_def env_at_def accounted_def)
  from g1 g2 g3 show ?thesis by simp
qed

subsection \<open>Pattern matcher\<close>

text \<open>
  C7. For every url and pattern, each matcher of a positive string mode (EqualTo,
  StartsWith, EndsWith, Contains) returns a boolean and the matcher of its negative mode
  returns exactly the negation of that boolean. For Regex and NotRegex: when the pattern
  compiles, Regex returns the boolean the regular expression gives on the url and NotRegex
  returns its negation; when the pattern does not compile, neither returns and both throw
  the SyntaxError.
\<close>

theorem negative_matcher_negates_positive:
  "(\<exists>b. siteRulesMatcher rx EqualTo url pat = Inr b \<and> siteRulesMatcher rx NotEqualTo url pat = Inr (\<not> b))
 \<and> (\<exists>b. siteRulesMatcher rx StartsWith url pat = Inr b \<and> siteRulesMatcher rx NotStartsWith url pat = Inr (\<not> b))
 \<and> (\<exists>b. siteRulesMatcher rx EndsWith url pat = Inr b \<and> siteRulesMatcher rx NotEndsWith url pat = Inr (\<not> b))
 \<and> (\<exists>b. siteRulesMatcher rx Contains url pat = Inr b \<and> siteRulesMatcher rx NotContains url pat = Inr (\<not> b))
 \<and> (\<forall>re. rx pat = Some re \<longrightarrow>
        siteRulesMatcher rx Regex url pat = Inr (re url)
      \<and> siteRulesMatcher rx NotRegex url pat = Inr (\<not> re url))
 \<and> (rx pat = None \<longrightarrow>
        siteRulesMatcher rx Regex url pat = Inl SyntaxError
      \<and> siteRulesMatcher rx NotRegex url pat = Inl SyntaxError)"
  by (simp add: RegExp_test_def)

theorem negative_matcher_negates_positive_witness:
  "RegExp_unterminated ''[]'' = Some (\<lambda>url. False)
 \<and> siteRulesMatcher RegExp_unterminated Regex ''https://a.com/'' ''[]'' = Inr False
 \<and> siteRulesMatcher RegExp_unterminated NotRegex ''https://a.com/'' ''[]'' = Inr True
 \<and> RegExp_unterminated ''('' = None
 \<and> siteRulesMatcher RegExp_unterminated Regex ''https://a.com/'' ''('' = Inl SyntaxError
 \<and> siteRulesMatcher RegExp_unterminated NotRegex ''https://a.com/'' ''('' = Inl SyntaxError
 \<and> siteRulesMatcher RegExp_unterminated Contains ''https://a.com/'' ''a.com'' = Inr True
 \<and> siteRulesMatcher RegExp_unterminated NotContains ''https://a.com/'' ''a.com'' = Inr False"
proof -
  have some: "RegExp_unterminated ''[]'' = Some (\<lambda>url. False)"
    and none: "RegExp_unterminated ''('' = None"
    by (simp_all add: RegExp_unterminated_def)
  have sub: "sublist ''a.com'' ''https://a.com/''"
    by (simp add: sublist_code(3))
  note pairs = negative_matcher_negates_positive [of RegExp_unterminated "''https://a.com/''"]
  from pairs [of "''[]''"] some
  have compiled: "siteRulesMatcher RegExp_unterminated Regex ''https://a.com/'' ''[]'' = Inr False
      \<and> siteRulesMatcher RegExp_unterminated NotRegex ''https://a.com/'' ''[]'' = Inr True"
    by simp
  from pairs [of "''(''"] none
  have thrown: "siteRulesMatcher RegExp_unterminated Regex ''https://a.com/'' ''('' = Inl SyntaxError
      \<and> siteRulesMatcher RegExp_unterminated NotRegex ''https://a.com/'' ''('' = Inl SyntaxError"
    by blast
  from pairs [of "''a.com''"]
  obtain b where b: "siteRulesMatcher RegExp_unterminated Contains ''https://a.com/'' ''a.com'' = Inr b"
      "siteRulesMatcher RegExp_unterminated NotContains ''https://a.com/'' ''a.com'' = Inr (\<not> b)"
    by blast
  from b(1) sub have "b" by simp
  with b have contains: "siteRulesMatcher RegExp_unterminated Contains ''https://a.com/'' ''a.com'' = Inr True
      \<and> siteRulesMatcher RegExp_unterminated NotContains ''https://a.com/'' ''a.com'' = Inr False"
    by simp
  from some none compiled thrown contains show ?thesis by simp
qed

subsection \<open>Rule selection\<close>

text \<open>
  C1 does not hold of the code. The rule form saves any non-empty pattern (the check
  \<open>FormService.validatePattern\<close>, which compiles a Regex pattern inside a \<open>try\<close>, has no
  caller), so an enabled Regex rule with the malformed pattern \<open>(\<close> can stand first in the
  store. On a navigation to \<open>https://a.com/\<close> the first rule, in stored order, that is
  enabled and whose matcher returns true is then the Block rule \<open>b\<close>; but the matcher
  throws on the rule before it, and \<open>applyRule\<close> rejects with the SyntaxError and leaves
  the page context as it was, with no redirect.
\<close>

theorem first_enabled_match_not_acted_on:
  "find (\<lambda>r. enabled r \<and> ruleMatchWithUrl RegExp_unterminated r ''https://a.com/'' = Inr True)
        (rules (fresh_page [unterminated_rule, simple_rule ''b'' ''a.com'' Block]))
     = Some (simple_rule ''b'' ''a.com'' Block)
 \<and> applyRule RegExp_unterminated (env_at 1000000 3600) ''https://a.com/''
        (fresh_page [unterminated_rule, simple_rule ''b'' ''a.com'' Block])
     = (Inl SyntaxError, fresh_page [unterminated_rule, simple_rule ''b'' ''a.com'' Block])"
  by (simp add: applyRule_def fresh_page_def unterminated_rule_def simple_rule_def ruleMatchWithUrl_def
        RegExp_test_def RegExp_unterminated_def sublist_code(3))

text \<open>
  Rule selection when no matcher throws. On a navigation event \<open>applyRule\<close> goes through
  the cached rules (loaded first, if they were not) in stored order, passing over each rule
  that is disabled (its matcher is not called) or whose matcher returns false. If that
  passes over every rule, it fulfils and does nothing. If the first rule not passed over is
  enabled with a matcher that returns true, it acts on that rule and on no other: it logs
  for Allow, assigns the block alert URL for Block, and runs \<open>applyLimitRule\<close> on the rule
  for Limit. A disabled rule is never the rule acted on.
\<close>

theorem applyRule_first_enabled_match:
  assumes "w1 = (if rulesLoaded w then w else snd (loadRules ev w))"
    and "rules w1 = pre @ post"
    and "\<forall>p\<in>set pre. \<not> enabled p \<or> ruleMatchWithUrl rx p url = Inr False"
  shows "(post = [] \<longrightarrow> applyRule rx ev url w = (Inr (), w1))
       \<and> (\<forall>r rest. post = r # rest \<and> enabled r \<and> ruleMatchWithUrl rx r url = Inr True \<longrightarrow>
            applyRule rx ev url w =
              (case action r of
                 Allow \<Rightarrow> (Inr (), w1\<lparr>console := console w1 @ [ConsoleLog (''Allowing access to '' @ pattern r)]\<rparr>)
               | Block \<Rightarrow>
                   (Inr (), w1\<lparr>location_href :=
                      Some \<lparr>type_param = ''block'', currentUrl_param = url, ruleTitle_param = title r,
                            allowedAt_param = None\<rparr>\<rparr>)
               | Limit a \<Rightarrow> applyLimitRule ev (length pre) url w1))"
proof -
  let ?f = "\<lambda>rule. if enabled rule then ruleMatchWithUrl rx rule url else Inr False"
  from assms(3) have pre: "\<forall>p\<in>set pre. ?f p = Inr False"
    by auto
  have none: "applyRule rx ev url w = (Inr (), w1)" if "post = []"
    using that assms(2) Array_find_end [OF pre]
    by (simp add: applyRule_ensure_loaded [OF assms(1)])
  have hit: "applyRule rx ev url w =
              (case action r of
                 Allow \<Rightarrow> (Inr (), w1\<lparr>console := console w1 @ [ConsoleLog (''Allowing access to '' @ pattern r)]\<rparr>)
               | Block \<Rightarrow>
                   (Inr (), w1\<lparr>location_href :=
                      Some \<lparr>type_param = ''block'', currentUrl_param = url, ruleTitle_param = title r,
                            allowedAt_param = None\<rparr>\<rparr>)
               | Limit a \<Rightarrow> applyLimitRule ev (length pre) url w1)"
    if "post = r # rest" "enabled r" "ruleMatchWithUrl rx r url = Inr True" for r rest
  proof -
    from that have "?f r = Inr True" by simp
    from Array_find_hit [OF pre this, of rest] that(1) assms(2)
    have "Array_find ?f (rules w1) = Inr (Some (length pre))" by simp
    moreover from that(1) assms(2) have "rules w1 ! length pre = r" by simp
    ultimately show ?thesis
      by (simp add: applyRule_ensure_loaded [OF assms(1)] applyBlockRule_def redirectToAlertPage_def
               split: SiteRuleAction.split)
  qed
  from none hit show ?thesis by blast
qed

theorem applyRule_first_enabled_match_witness:
  "(\<forall>rx ev. applyRule rx ev ''https://youtube.com/shorts/xyz'' (fresh_page shorts_rules) =
      (Inr (), (fresh_page shorts_rules)
                 \<lparr>location_href :=
                    Some \<lparr>type_param = ''block'', currentUrl_param = ''https://youtube.com/shorts/xyz'',
                          ruleTitle_param = ''Rule s'', allowedAt_param = None\<rparr>\<rparr>))
 \<and> (\<forall>rx ev. applyRule rx ev ''https://youtube.com/watch'' (fresh_page shorts_rules) =
      (Inr (), fresh_page shorts_rules))"
proof -
  let ?w = "fresh_page shorts_rules"
  have w1: "?w = (if rulesLoaded ?w then ?w else snd (loadRules ev ?w))" for ev
    by (simp add: fresh_page_def)
  have hit: "applyRule rx ev ''https://youtube.com/shorts/xyz'' ?w =
      (Inr (), ?w\<lparr>location_href :=
                    Some \<lparr>type_param = ''block'', currentUrl_param = ''https://youtube.com/shorts/xyz'',
                          ruleTitle_param = ''Rule s'', allowedAt_param = None\<rparr>\<rparr>)" for rx ev
  proof -
    have split: "rules ?w = take 2 shorts_rules @ [simple_rule ''s'' ''youtube.com/shorts'' Block]"
      by (simp add: fresh_page_def shorts_rules_def)
    have pre: "\<forall>p\<in>set (take 2 shorts_rules).
                 \<not> enabled p \<or> ruleMatchWithUrl rx p ''https://youtube.com/shorts/xyz'' = Inr False"
      by (simp add: shorts_rules_def simple_rule_def ruleMatchWithUrl_def sublist_code(3))
    have r: "enabled (simple_rule ''s'' ''youtube.com/shorts'' Block)"
      "ruleMatchWithUrl rx (simple_rule ''s'' ''youtube.com/shorts'' Block) ''https://youtube.com/shorts/xyz'' = Inr True"
      by (simp_all add: simple_rule_def ruleMatchWithUrl_def sublist_code(3))
    from applyRule_first_enabled_match [OF w1 split pre] r show ?thesis
      by (simp add: simple_rule_def)
  qed
  have miss: "applyRule rx ev ''https://youtube.com/watch'' ?w = (Inr (), ?w)" for rx ev
  proof -
    have split: "rules ?w = shorts_rules @ []"
      by (simp add: fresh_page_def)
    have pre: "\<forall>p\<in>set shorts_rules.
                 \<not> enabled p \<or> ruleMatchWithUrl rx p ''https://youtube.com/watch'' = Inr False"
      by (simp add: shorts_rules_def simple_rule_def ruleMatchWithUrl_def sublist_code(3))
    from applyRule_first_enabled_match [OF w1 split pre] show ?thesis
      by simp
  qed
  from hit miss show ?thesis by simp
qed

subsection \<open>Limit rules: zero settings\<close>




subsection \<open>The monitoring loop\<close>

text \<open>
  C5 does not hold of the code. A navigation to \<open>https://s.example/a\<close> under a fresh
  page context reaches the grant branch and starts the monitor (timer 0). The rule's
  pattern is then edited elsewhere to match section \<open>b\<close> only; the next tick finds that the
  rule no longer matches the monitored URL and clears the timer, with the flag left set.
  A later navigation to \<open>https://s.example/b\<close> passes both gates (it fulfils without a
  redirect, after accounting 11 seconds) while no monitor is running, and starts none.
\<close>

theorem no_second_monitor_after_exit:
  "let b = visited_a\<lparr>pattern := ''s.example/b''\<rparr>;
       w1 = snd (applyRule rx (env_at 1000000 3600) ''https://s.example/a'' (fresh_page [visited_a]));
       w2 = snd (monitor_tick rx (env_at 1005000 3605) 0 a_monitor (w1\<lparr>sync_storage := Some [b]\<rparr>));
       r3 = applyRule rx (env_at 1010000 3610) ''https://s.example/b'' w2
   in intervals w1 = [(0, a_monitor)]
    \<and> intervals w2 = [] \<and> limitRuleUpdateIntervalRunning w2 \<and> rules w2 = [b]
    \<and> fst r3 = Inr () \<and> location_href (snd r3) = None
    \<and> rules (snd r3) =
         [b\<lparr>action := Limit (hourly_limit\<lparr>usedMinutes := 11 / 60, lastUsedAt := 1010000\<rparr>)\<rparr>]
    \<and> intervals (snd r3) = []"
  unfolding Let_def first_grant_starts_monitor edited_rule_stops_monitor second_grant_starts_nothing
  by (simp add: fresh_page_def)

text \<open>
  At most one monitor at a time: in every state a page context can reach, at most one
  monitor timer is set.
\<close>

theorem one_monitor_at_a_time:
  "reachable rx w \<Longrightarrow> length (intervals w) \<le> 1"
proof -
  assume "reachable rx w"
  then have "monitor_guarded w"
  proof (induction rule: reachable.induct)
    case (start w)
    then show ?case by (simp add: monitor_guarded_def)
  next
    case (navigation w ev url)
    then show ?case by (simp add: applyRule_guarded)
  next
    case (tick w h m ev)
    then show ?case by (simp add: monitor_tick_guarded)
  next
    case (stored w s)
    then show ?case by (simp add: monitor_guarded_def)
  qed
  then show ?thesis by (simp add: monitor_guarded_def)
qed

theorem one_monitor_at_a_time_witness:
  "\<forall>rx. reachable rx (snd (applyRule rx (env_at 1000000 3600) ''https://s.example/a'' (fresh_page [visited_a])))
      \<and> intervals (snd (applyRule rx (env_at 1000000 3600) ''https://s.example/a'' (fresh_page [visited_a])))
          = [(0, a_monitor)]
      \<and> length (intervals (snd (applyRule rx (env_at 1000000 3600) ''https://s.example/a'' (fresh_page [visited_a]))))
          \<le> 1"
proof
  fix rx
  have "reachable rx (fresh_page [visited_a])"
    by (rule reachable.start) (simp add: fresh_page_def)
  then have r: "reachable rx (snd (applyRule rx (env_at 1000000 3600) ''https://s.example/a'' (fresh_page [visited_a])))"
    by (rule reachable.navigation)
  from one_monitor_at_a_time [OF r] r
  show "reachable rx (snd (applyRule rx (env_at 1000000 3600) ''https://s.example/a'' (fresh_page [visited_a])))
      \<and> intervals (snd (applyRule rx (env_at 1000000 3600) ''https://s.example/a'' (fresh_page [visited_a])))
          = [(0, a_monitor)]
      \<and> length (intervals (snd (applyRule rx (env_at 1000000 3600) ''https://s.example/a'' (fresh_page [visited_a]))))
          \<le> 1"
    by (simp add: first_grant_starts_monitor)
qed

text \<open>
  C6 does not hold of the code. With the monitored rule edited (through the rule form,
  which saves any non-empty pattern) into an enabled Regex rule with the malformed pattern
  \<open>(\<close>, a run of the callback rejects with the SyntaxError and changes nothing. The timer
  is still set, so the run is not an exit, although the rule does not match the monitored
  URL; and no accounting was done, although the rule is a Limit rule below its allowance.
\<close>

theorem monitor_tick_throw_keeps_timer:
  "fst (monitor_tick RegExp_unterminated (env_at 1005000 3605) 0
          \<lparr>monitored_id = ''x'', monitored_title = ''Rule x'', monitored_url = ''https://a.com/''\<rparr>
          (monitored_page (unterminated_rule\<lparr>action := Limit hourly_limit\<rparr>) ''https://a.com/''))
     = Inl SyntaxError
 \<and> snd (monitor_tick RegExp_unterminated (env_at 1005000 3605) 0
          \<lparr>monitored_id = ''x'', monitored_title = ''Rule x'', monitored_url = ''https://a.com/''\<rparr>
          (monitored_page (unterminated_rule\<lparr>action := Limit hourly_limit\<rparr>) ''https://a.com/''))
     = monitored_page (unterminated_rule\<lparr>action := Limit hourly_limit\<rparr>) ''https://a.com/''
 \<and> intervals (monitored_page (unterminated_rule\<lparr>action := Limit hourly_limit\<rparr>) ''https://a.com/'')
     = [(0, \<lparr>monitored_id = ''x'', monitored_title = ''Rule x'', monitored_url = ''https://a.com/''\<rparr>)]
 \<and> usedMinutes hourly_limit < allowedMinutes hourly_limit"
  by (simp add: monitor_tick_def loadRules_eq Let_def monitored_page_def fresh_page_def env_at_def
        unterminated_rule_def ruleMatchWithUrl_def RegExp_test_def RegExp_unterminated_def
        hourly_limit_def youtube_limit_def)

text \<open>
  One run of the monitor's callback when the matcher does not throw. The run reloads the
  rules and looks the rule up by id. It stops silently (timer cleared, no redirect, no
  accounting) when the rule is gone, is disabled, returns false on the monitored URL, or
  matches it but is no longer a Limit rule. It stops and redirects, with type \<open>limit\<close> and
  \<open>allowedAt = lastResetAt + resetAfterMinutes * 60000\<close> from the freshly loaded values,
  when the rule is an enabled, matching Limit rule with \<open>usedMinutes \<ge> allowedMinutes\<close>. It
  runs the accounting on the fresh rule and keeps the timer when the rule is an enabled,
  matching Limit rule below its allowance.
\<close>

theorem monitor_tick_outcomes:
  assumes "w1 = snd (loadRules ev w)"
  shows "(getRuleById (monitored_id m) w1 = None \<longrightarrow>
            monitor_tick rx ev h m w = (Inr (), clearInterval h w1))
       \<and> (\<forall>r. getRuleById (monitored_id m) w1 = Some r
              \<and> (\<not> enabled r
                 \<or> enabled r \<and> ruleMatchWithUrl rx r (monitored_url m) = Inr False
                 \<or> enabled r \<and> ruleMatchWithUrl rx r (monitored_url m) = Inr True \<and> (\<forall>a. action r \<noteq> Limit a)) \<longrightarrow>
            monitor_tick rx ev h m w = (Inr (), clearInterval h w1))
       \<and> (\<forall>r a. getRuleById (monitored_id m) w1 = Some r \<and> enabled r
              \<and> ruleMatchWithUrl rx r (monitored_url m) = Inr True
              \<and> action r = Limit a \<and> usedMinutes a \<ge> allowedMinutes a \<longrightarrow>
            monitor_tick rx ev h m w =
              (Inr (), redirectToAlertPage ''limit'' (monitored_url m) (monitored_title m)
                         (Some (lastResetAt a + resetAfterMinutes a * 60000)) (clearInterval h w1)))
       \<and> (\<forall>r a. getRuleById (monitored_id m) w1 = Some r \<and> enabled r
              \<and> ruleMatchWithUrl rx r (monitored_url m) = Inr True
              \<and> action r = Limit a \<and> usedMinutes a < allowedMinutes a \<longrightarrow>
            (\<exists>i < length (rules w1). rules w1 ! i = r
                \<and> monitor_tick rx ev h m w = updateLimitRuleUsage ev i w1)
            \<and> intervals (snd (monitor_tick rx ev h m w)) = intervals w
            \<and> location_href (snd (monitor_tick rx ev h m w)) = location_href w)
       \<and> intervals (clearInterval h w1) = filter (\<lambda>t. fst t \<noteq> h) (intervals w)
       \<and> location_href (clearInterval h w1) = location_href w
       \<and> set_calls (clearInterval h w1) = set_calls w"
proof -
  let ?P = "\<lambda>r. id_rule r = monitored_id m"
  note tick = monitor_tick_loaded [OF assms, of rx h m]
  have same: "intervals w1 = intervals w" "location_href w1 = location_href w" "set_calls w1 = set_calls w"
    unfolding assms by (simp_all add: loadRules_eq Let_def)
  have gone: "monitor_tick rx ev h m w = (Inr (), clearInterval h w1)"
    if "getRuleById (monitored_id m) w1 = None"
  proof -
    from that have "findIndex ?P (rules w1) = None"
      by (simp add: getRuleById_def find_findIndex)
    then show ?thesis by (simp add: tick)
  qed
  have found: "\<exists>i. findIndex ?P (rules w1) = Some i \<and> i < length (rules w1) \<and> rules w1 ! i = r"
    if "getRuleById (monitored_id m) w1 = Some r" for r
  proof -
    from that obtain i where i: "findIndex ?P (rules w1) = Some i" "rules w1 ! i = r"
      by (auto simp: getRuleById_def find_findIndex)
    with findIndex_Some [OF i(1)] show ?thesis by simp
  qed
  have stop: "monitor_tick rx ev h m w = (Inr (), clearInterval h w1)"
    if "getRuleById (monitored_id m) w1 = Some r"
      and "\<not> enabled r
         \<or> enabled r \<and> ruleMatchWithUrl rx r (monitored_url m) = Inr False
         \<or> enabled r \<and> ruleMatchWithUrl rx r (monitored_url m) = Inr True \<and> (\<forall>a. action r \<noteq> Limit a)" for r
  proof -
    from found [OF that(1)] obtain i where "findIndex ?P (rules w1) = Some i" "rules w1 ! i = r"
      by blast
    with that(2) show ?thesis
      by (auto simp: tick split: SiteRuleAction.split)
  qed
  have exhausted: "monitor_tick rx ev h m w =
              (Inr (), redirectToAlertPage ''limit'' (monitored_url m) (monitored_title m)
                         (Some (lastResetAt a + resetAfterMinutes a * 60000)) (clearInterval h w1))"
    if "getRuleById (monitored_id m) w1 = Some r" "enabled r"
      "ruleMatchWithUrl rx r (monitored_url m) = Inr True" "action r = Limit a"
      "usedMinutes a \<ge> allowedMinutes a" for r a
  proof -
    from found [OF that(1)] obtain i where "findIndex ?P (rules w1) = Some i" "rules w1 ! i = r"
      by blast
    with that(2-) show ?thesis by (simp add: tick)
  qed
  have continue: "(\<exists>i < length (rules w1). rules w1 ! i = r
                \<and> monitor_tick rx ev h m w = updateLimitRuleUsage ev i w1)
            \<and> intervals (snd (monitor_tick rx ev h m w)) = intervals w
            \<and> location_href (snd (monitor_tick rx ev h m w)) = location_href w"
    if "getRuleById (monitored_id m) w1 = Some r" "enabled r"
      "ruleMatchWithUrl rx r (monitored_url m) = Inr True" "action r = Limit a"
      "usedMinutes a < allowedMinutes a" for r a
  proof -
    from found [OF that(1)] obtain i where i: "findIndex ?P (rules w1) = Some i" "i < length (rules w1)"
      "rules w1 ! i = r"
      by blast
    with that(2-) have eq: "monitor_tick rx ev h m w = updateLimitRuleUsage ev i w1"
      by (simp add: tick)
    from i(3) that(4) have "action (rules w1 ! i) = Limit a" by simp
    from updateLimitRuleUsage_world [OF this, of ev] eq same i show ?thesis
      by auto
  qed
  have cleared: "intervals (clearInterval h w1) = filter (\<lambda>t. fst t \<noteq> h) (intervals w)"
    "location_href (clearInterval h w1) = location_href w"
    "set_calls (clearInterval h w1) = set_calls w"
    using same by (simp_all add: clearInterval_def)
  from gone stop exhausted continue cleared show ?thesis
    by blast
qed

theorem monitor_tick_outcomes_witness:
  "(\<forall>rx. monitor_tick rx (env_at 1005000 3605) 0 yt_monitor
       ((monitored_page (simple_rule ''yt'' ''youtube.com'' (Limit hourly_limit)) ''https://youtube.com/'')
          \<lparr>sync_storage := Some [(simple_rule ''yt'' ''youtube.com'' (Limit hourly_limit))\<lparr>enabled := False\<rparr>]\<rparr>)
     = (Inr (), (fresh_page [(simple_rule ''yt'' ''youtube.com'' (Limit hourly_limit))\<lparr>enabled := False\<rparr>])
                  \<lparr>limitRuleUpdateIntervalRunning := True, next_interval_id := 1\<rparr>))
 \<and> (\<forall>rx. location_href (snd (monitor_tick rx (env_at 1005000 3605) 0 yt_monitor
       ((monitored_page (simple_rule ''yt'' ''youtube.com'' (Limit hourly_limit)) ''https://youtube.com/'')
          \<lparr>sync_storage := Some [simple_rule ''yt'' ''youtube.com'' (Limit (hourly_limit\<lparr>usedMinutes := 10\<rparr>))]\<rparr>)))
     = Some \<lparr>type_param = ''limit'', currentUrl_param = ''https://youtube.com/'',
             ruleTitle_param = ''Rule yt'', allowedAt_param = Some 4599000\<rparr>)
 \<and> (\<forall>rx. intervals (snd (monitor_tick rx (env_at 1005000 3605) 0 yt_monitor
       (monitored_page (simple_rule ''yt'' ''youtube.com'' (Limit hourly_limit)) ''https://youtube.com/'')))
     = [(0, yt_monitor)])"
proof -
  let ?ev = "env_at 1005000 3605"
  let ?r = "simple_rule ''yt'' ''youtube.com'' (Limit hourly_limit)"
  let ?w = "monitored_page ?r ''https://youtube.com/''"
  let ?off = "?r\<lparr>enabled := False\<rparr>"
  let ?full = "simple_rule ''yt'' ''youtube.com'' (Limit (hourly_limit\<lparr>usedMinutes := 10\<rparr>))"
  note defs = monitored_page_def fresh_page_def simple_rule_def env_at_def yt_monitor_def
    loadRules_eq getRuleById_def Let_def
  have stop: "monitor_tick rx ?ev 0 yt_monitor (?w\<lparr>sync_storage := Some [?off]\<rparr>)
     = (Inr (), (fresh_page [?off])\<lparr>limitRuleUpdateIntervalRunning := True, next_interval_id := 1\<rparr>)" for rx
  proof -
    have "getRuleById (monitored_id yt_monitor) (snd (loadRules ?ev (?w\<lparr>sync_storage := Some [?off]\<rparr>))) = Some ?off"
      and "\<not> enabled ?off"
      by (simp_all add: defs)
    with monitor_tick_outcomes [OF refl, of yt_monitor ?ev "?w\<lparr>sync_storage := Some [?off]\<rparr>" rx 0]
    have "monitor_tick rx ?ev 0 yt_monitor (?w\<lparr>sync_storage := Some [?off]\<rparr>)
        = (Inr (), clearInterval 0 (snd (loadRules ?ev (?w\<lparr>sync_storage := Some [?off]\<rparr>))))"
      by blast
    then show ?thesis
      by (simp add: defs clearInterval_def)
  qed
  have exhausted: "location_href (snd (monitor_tick rx ?ev 0 yt_monitor (?w\<lparr>sync_storage := Some [?full]\<rparr>)))
     = Some \<lparr>type_param = ''limit'', currentUrl_param = ''https://youtube.com/'',
             ruleTitle_param = ''Rule yt'', allowedAt_param = Some 4599000\<rparr>" for rx
  proof -
    have "getRuleById (monitored_id yt_monitor) (snd (loadRules ?ev (?w\<lparr>sync_storage := Some [?full]\<rparr>))) = Some ?full"
      and "enabled ?full"
      and "ruleMatchWithUrl rx ?full (monitored_url yt_monitor) = Inr True"
      and "action ?full = Limit (hourly_limit\<lparr>usedMinutes := 10\<rparr>)"
      and "usedMinutes (hourly_limit\<lparr>usedMinutes := 10\<rparr>) \<ge> allowedMinutes (hourly_limit\<lparr>usedMinutes := 10\<rparr>)"
      by (simp_all add: defs ruleMatchWithUrl_def sublist_code(3) hourly_limit_def youtube_limit_def)
    with monitor_tick_outcomes [OF refl, of yt_monitor ?ev "?w\<lparr>sync_storage := Some [?full]\<rparr>" rx 0]
    have "monitor_tick rx ?ev 0 yt_monitor (?w\<lparr>sync_storage := Some [?full]\<rparr>)
        = (Inr (), redirectToAlertPage ''limit'' (monitored_url yt_monitor) (monitored_title yt_monitor)
                     (Some (lastResetAt (hourly_limit\<lparr>usedMinutes := 10\<rparr>)
                            + resetAfterMinutes (hourly_limit\<lparr>usedMinutes := 10\<rparr>) * 60000))
                     (clearInterval 0 (snd (loadRules ?ev (?w\<lparr>sync_storage := Some [?full]\<rparr>)))))"
      by blast
    then show ?thesis
      by (simp add: redirectToAlertPage_href yt_monitor_def hourly_limit_def youtube_limit_def)
  qed
  have continue: "intervals (snd (monitor_tick rx ?ev 0 yt_monitor ?w)) = [(0, yt_monitor)]" for rx
  proof -
    have "getRuleById (monitored_id yt_monitor) (snd (loadRules ?ev ?w)) = Some ?r"
      and "enabled ?r"
      and "ruleMatchWithUrl rx ?r (monitored_url yt_monitor) = Inr True"
      and "action ?r = Limit hourly_limit"
      and "usedMinutes hourly_limit < allowedMinutes hourly_limit"
      by (simp_all add: defs ruleMatchWithUrl_def sublist_code(3) hourly_limit_def youtube_limit_def)
    with monitor_tick_outcomes [OF refl, of yt_monitor ?ev ?w rx 0]
    have "intervals (snd (monitor_tick rx ?ev 0 yt_monitor ?w)) = intervals ?w"
      by blast
    then show ?thesis
      by (simp add: monitored_page_def simple_rule_def yt_monitor_def)
  qed
  from stop exhausted continue show ?thesis by blast
qed

end
